theory Spec2Isabelle
  imports Main
begin

section \<open>The clients table\<close>

text \<open>
  Modelled from the spec: the columns of the \<open>clients\<close> table. The schema lives in
  \<open>clients.db\<close>, which is not part of the sources; the spec lists \<open>id\<close> (unique key),
  \<open>name\<close> and other descriptive fields, \<open>status\<close> and \<open>priority\<close>. The descriptive
  columns are opaque to the server: no statement of \<open>server.js\<close> writes them.
\<close>

record client =
  id_c :: int
  name :: string
  description :: string
  status :: string
  priority :: int

text \<open>The database is the row list of the one table, in table order.\<close>

type_synonym db = "client list"

text \<open>
  The body of a PUT request, \<open>let { status, priority } = req.body\<close>: a missing key is
  \<open>undefined\<close>, here \<open>None\<close>.
\<close>

record body =
  b_status :: "string option"
  b_priority :: "int option"

text \<open>
  What a handler sends: \<open>res.status(200).send(clients)\<close>, or
  \<open>res.status(400).send({message, long_message})\<close>. \<open>Fault\<close> is the uncaught
  \<open>TypeError\<close> of reading \<open>client.status\<close> when \<open>clients.find\<close> gave \<open>undefined\<close>.
\<close>

datatype response =
  Ok200 "client list"
| Bad400 string string
| Fault

text \<open>The result \<open>{valid, messageObj}\<close> of the two validators.\<close>

datatype validation = Valid | Invalid string string

section \<open>SQL statements\<close>

text \<open>\<open>UPDATE clients SET ... WHERE ...\<close>: every row the condition selects is rewritten.\<close>

definition update_where :: "(client \<Rightarrow> bool) \<Rightarrow> (client \<Rightarrow> client) \<Rightarrow> db \<Rightarrow> db" where
  "update_where cond upd rows = map (\<lambda>r. if cond r then upd r else r) rows"

text \<open>\<open>select * from clients where id = ? limit 1\<close> and \<open>clients.find(c => c.id === id)\<close>.\<close>

definition select_by_id :: "db \<Rightarrow> int \<Rightarrow> client option" where
  "select_by_id rows i = find (\<lambda>c. id_c c = i) rows"

text \<open>\<open>select * from clients where status = ?\<close>.\<close>

definition select_by_status :: "db \<Rightarrow> string \<Rightarrow> client list" where
  "select_by_status rows s = filter (\<lambda>c. status c = s) rows"

text \<open>\<open>SELECT MAX(priority) as maxPriority FROM clients WHERE status = ?\<close>: NULL on no row.\<close>

fun sql_max :: "int list \<Rightarrow> int option" where
  "sql_max [] = None"
| "sql_max (x # xs) = Some (fold max xs x)"

definition select_max_priority :: "db \<Rightarrow> string \<Rightarrow> int option" where
  "select_max_priority rows s = sql_max (map priority (select_by_status rows s))"

section \<open>Validators\<close>

text \<open>
  The id is \<open>parseInt(req.params.id, 10)\<close>: an integer, or \<open>NaN\<close>, here \<open>None\<close>.
\<close>

definition validateId :: "db \<Rightarrow> int option \<Rightarrow> validation" where
  "validateId rows idp =
     (case idp of
        None \<Rightarrow> Invalid ''Invalid id provided.'' ''Id can only be integer.''
      | Some i \<Rightarrow>
          (case select_by_id rows i of
             None \<Rightarrow> Invalid ''Invalid id provided.'' ''Cannot find client with that id.''
           | Some c \<Rightarrow> Valid))"

definition validatePriority :: "int option \<Rightarrow> validation" where
  "validatePriority p =
     (case p of
        None \<Rightarrow> Invalid ''Invalid priority provided.'' ''Priority can only be positive integer.''
      | Some n \<Rightarrow> Valid)"

section \<open>GET /api/v1/clients\<close>

text \<open>
  \<open>if (status)\<close> is JavaScript truthiness: \<open>undefined\<close> and the empty string are falsy.
\<close>

definition get_clients :: "db \<Rightarrow> string option \<Rightarrow> response" where
  "get_clients rows q =
     (case q of
        None \<Rightarrow> Ok200 rows
      | Some s \<Rightarrow>
          if s \<noteq> [] then
            (if s \<noteq> ''backlog'' \<and> s \<noteq> ''in-progress'' \<and> s \<noteq> ''complete''
             then Bad400 ''Invalid status provided.''
                    ''Status can only be one of the following: [backlog | in-progress | complete].''
             else Ok200 (select_by_status rows s))
          else Ok200 rows)"

section \<open>PUT /api/v1/clients/:id\<close>

text \<open>
  The two SET clauses that place a card: \<open>SET priority = ?\<close> and
  \<open>SET status = ?, priority = ?\<close>.
\<close>

definition set_priority :: "int \<Rightarrow> client \<Rightarrow> client" where
  "set_priority p r = r\<lparr>priority := p\<rparr>"

definition set_placement :: "string \<Rightarrow> int \<Rightarrow> client \<Rightarrow> client" where
  "set_placement s p r = r\<lparr>status := s, priority := p\<rparr>"

text \<open>
  The first test, \<open>status && status !== client.status\<close>: the lane the card moves to,
  if any. An absent or empty status, or the current one, is no lane change.
\<close>

definition lane_change :: "string option \<Rightarrow> client \<Rightarrow> string option" where
  "lane_change st c =
     (case st of
        None \<Rightarrow> None
      | Some s \<Rightarrow> if s \<noteq> [] \<and> s \<noteq> status c then Some s else None)"

text \<open>The update code between the two marker comments, for the client found.\<close>

definition update_code :: "db \<Rightarrow> int \<Rightarrow> client \<Rightarrow> body \<Rightarrow> db" where
  "update_code rows i c b =
     (case lane_change (b_status b) c of
        Some s \<Rightarrow>
          (let rows1 = update_where (\<lambda>r. status r = status c \<and> priority r > priority c)
                         (\<lambda>r. set_priority (priority r - 1) r) rows
           in case b_priority b of
                Some p \<Rightarrow>
                  (let rows2 = update_where (\<lambda>r. status r = s \<and> priority r \<ge> p)
                                 (\<lambda>r. set_priority (priority r + 1) r) rows1
                   in update_where (\<lambda>r. id_c r = i) (set_placement s p) rows2)
              | None \<Rightarrow>
                  (let newPriority =
                         (case select_max_priority rows1 s of
                            None \<Rightarrow> 0
                          | Some m \<Rightarrow> if m \<noteq> 0 then m else 0) + 1
                   in update_where (\<lambda>r. id_c r = i) (set_placement s newPriority) rows1))
      | None \<Rightarrow>
          (case b_priority b of
             None \<Rightarrow> rows
           | Some p \<Rightarrow>
               if p \<noteq> priority c then
                 (let rows1 =
                        (if p > priority c then
                           update_where
                             (\<lambda>r. status r = status c \<and> priority r > priority c \<and> priority r \<le> p)
                             (\<lambda>r. set_priority (priority r - 1) r) rows
                         else if p < priority c then
                           update_where
                             (\<lambda>r. status r = status c \<and> priority r \<ge> p \<and> priority r < priority c)
                             (\<lambda>r. set_priority (priority r + 1) r) rows
                         else rows)
                  in update_where (\<lambda>r. id_c r = i) (set_priority p) rows1)
               else rows))"

text \<open>
  The handler: validate the id, read the table, find the client, run the update code,
  read the table again and send it. The second component is the table afterwards.
\<close>

definition put_client :: "db \<Rightarrow> int option \<Rightarrow> body \<Rightarrow> response \<times> db" where
  "put_client rows idp b =
     (case validateId rows idp of
        Invalid m l \<Rightarrow> (Bad400 m l, rows)
      | Valid \<Rightarrow>
          (case idp of
             None \<Rightarrow> (Fault, rows)
           | Some i \<Rightarrow>
               (case select_by_id rows i of
                  None \<Rightarrow> (Fault, rows)
                | Some c \<Rightarrow>
                    (let rows' = update_code rows i c b in (Ok200 rows', rows')))))"

section \<open>The lane invariant\<close>

definition lane_priorities :: "db \<Rightarrow> string \<Rightarrow> int list" where
  "lane_priorities rows s = map priority (select_by_status rows s)"

text \<open>No duplicates and no gaps: the priorities of lane \<open>s\<close> are exactly \<open>1..N\<close>.\<close>

definition lane_ok :: "db \<Rightarrow> string \<Rightarrow> bool" where
  "lane_ok rows s =
     (distinct (lane_priorities rows s) \<and>
      set (lane_priorities rows s) = {1 .. int (length (lane_priorities rows s))})"

text \<open>Every lane that has a client is in order (a lane without clients trivially is).\<close>

definition contiguous :: "db \<Rightarrow> bool" where
  "contiguous rows = (\<forall>s \<in> set (map status rows). lane_ok rows s)"

text \<open>The table's key: no two rows share an id.\<close>

definition unique_ids :: "db \<Rightarrow> bool" where
  "unique_ids rows = distinct (map id_c rows)"

text \<open>
  The spec's \<open>maxPriorityInLane\<close>: the highest priority in the lane, 0 if the lane is empty.
\<close>

definition maxPriorityInLane :: "db \<Rightarrow> string \<Rightarrow> int" where
  "maxPriorityInLane rows s =
     (if lane_priorities rows s = [] then 0 else Max (set (lane_priorities rows s)))"

section \<open>The cases of the reordering engine, row by row\<close>

text \<open>
  The spec's Case A with a priority given (section 4.2), as the effect on one row: the moved
  client is placed at \<open>(s, p)\<close>; a client of the destination lane \<open>s\<close> at or below \<open>p\<close>
  is pushed down by one; a client of the old lane below the moved client's old position
  moves up by one; every other row is left alone.
\<close>

definition case_A_row :: "int \<Rightarrow> client \<Rightarrow> string \<Rightarrow> int \<Rightarrow> client \<Rightarrow> client" where
  "case_A_row i c s p r =
     (if id_c r = i then r\<lparr>status := s, priority := p\<rparr>
      else if status r = s \<and> priority r \<ge> p then r\<lparr>priority := priority r + 1\<rparr>
      else if status r = status c \<and> priority r > priority c then r\<lparr>priority := priority r - 1\<rparr>
      else r)"

text \<open>
  Case A without a priority: the moved client goes to \<open>(s, d)\<close>, the old lane closes
  its gap, the destination lane is not shifted.
\<close>

definition case_A_append_row :: "int \<Rightarrow> client \<Rightarrow> string \<Rightarrow> int \<Rightarrow> client \<Rightarrow> client" where
  "case_A_append_row i c s d r =
     (if id_c r = i then r\<lparr>status := s, priority := d\<rparr>
      else if status r = status c \<and> priority r > priority c then r\<lparr>priority := priority r - 1\<rparr>
      else r)"

text \<open>
  Case B: the moved client gets \<open>p\<close>; moving down, the clients of its lane in
  \<open>(old, p]\<close> move up by one; moving up, those in \<open>[p, old)\<close> move down by one.
\<close>

definition case_B_row :: "int \<Rightarrow> client \<Rightarrow> int \<Rightarrow> client \<Rightarrow> client" where
  "case_B_row i c p r =
     (if id_c r = i then r\<lparr>priority := p\<rparr>
      else if p > priority c \<and> status r = status c \<and> priority c < priority r \<and> priority r \<le> p
           then r\<lparr>priority := priority r - 1\<rparr>
      else if p < priority c \<and> status r = status c \<and> p \<le> priority r \<and> priority r < priority c
           then r\<lparr>priority := priority r + 1\<rparr>
      else r)"

section \<open>The boards of the spec's scenarios\<close>

text \<open>Scenarios 1 to 3: the backlog holds P1, P2, P3 at priorities 1, 2, 3.\<close>

definition backlog3 :: db where
  "backlog3 =
     [\<lparr>id_c = 1, name = ''P1'', description = [], status = ''backlog'', priority = 1\<rparr>,
      \<lparr>id_c = 2, name = ''P2'', description = [], status = ''backlog'', priority = 2\<rparr>,
      \<lparr>id_c = 3, name = ''P3'', description = [], status = ''backlog'', priority = 3\<rparr>]"

text \<open>The same backlog beside two cards in progress and one complete.\<close>

definition board :: db where
  "board = backlog3 @
     [\<lparr>id_c = 4, name = ''Q1'', description = [], status = ''in-progress'', priority = 1\<rparr>,
      \<lparr>id_c = 5, name = ''Q2'', description = [], status = ''in-progress'', priority = 2\<rparr>,
      \<lparr>id_c = 6, name = ''R1'', description = [], status = ''complete'', priority = 1\<rparr>]"

text \<open>A row as the scenarios name it: name, lane, priority.\<close>

definition summary :: "db \<Rightarrow> (string \<times> string \<times> int) list" where
  "summary rows = map (\<lambda>r. (name r, status r, priority r)) rows"

section \<open>Lanes as sets\<close>

abbreviation lane :: "db \<Rightarrow> string \<Rightarrow> client set" where
  "lane rows s \<equiv> set (select_by_status rows s)"

definition numbered :: "client set \<Rightarrow> bool" where
  "numbered A = (inj_on priority A \<and> priority ` A = {1 .. int (card A)})"

text \<open>The definitions to unfold when a handler or the invariant is run on a concrete table.\<close>

lemmas handler_defs =
  put_client_def validateId_def select_by_id_def update_code_def lane_change_def
  select_max_priority_def select_by_status_def update_where_def set_placement_def
  set_priority_def Let_def

lemmas invariant_defs =
  contiguous_def lane_ok_def lane_priorities_def unique_ids_def

section \<open>Rows, lookups and updates\<close>

lemma id_set_priority [simp]: "id_c (set_priority p r) = id_c r"
  by (simp add: set_priority_def)

lemma id_set_placement [simp]: "id_c (set_placement s p r) = id_c r"
  by (simp add: set_placement_def)

lemma set_priority_fields [simp]:
  "status (set_priority p r) = status r" "priority (set_priority p r) = p"
  "name (set_priority p r) = name r" "description (set_priority p r) = description r"
  by (simp_all add: set_priority_def)

lemma set_placement_fields [simp]:
  "status (set_placement s p r) = s" "priority (set_placement s p r) = p"
  "name (set_placement s p r) = name r" "description (set_placement s p r) = description r"
  by (simp_all add: set_placement_def)

lemma select_by_id_update_where:
  "(\<And>r. id_c (upd r) = id_c r) \<Longrightarrow>
   select_by_id (update_where cond upd rows) i =
     map_option (\<lambda>r. if cond r then upd r else r) (select_by_id rows i)"
  by (induction rows) (auto simp: select_by_id_def update_where_def)

lemma select_by_id_None: "select_by_id rows i = None \<longleftrightarrow> i \<notin> id_c ` set rows"
  by (auto simp: select_by_id_def find_None_iff)

lemma select_by_id_Some: "select_by_id rows i = Some c \<Longrightarrow> c \<in> set rows \<and> id_c c = i"
  by (auto simp: select_by_id_def find_Some_iff)

lemma put_client_found:
  "select_by_id rows i = Some c \<Longrightarrow>
   put_client rows (Some i) b = (Ok200 (update_code rows i c b), update_code rows i c b)"
  by (simp add: put_client_def validateId_def Let_def)

text \<open>The handler never reads a field of a client it did not find.\<close>

lemma put_client_no_fault: "fst (put_client rows idp b) \<noteq> Fault"
  by (simp add: put_client_def validateId_def Let_def split: option.splits)

lemma lane_change_Some:
  "lane_change st c = Some s \<longleftrightarrow> st = Some s \<and> s \<noteq> [] \<and> s \<noteq> status c"
  by (auto simp: lane_change_def split: option.splits)

lemma lane_change_same_status:
  "status c' = status c \<Longrightarrow> lane_change st c' = lane_change st c"
  by (simp add: lane_change_def split: option.splits)

lemma lane_change_arrived: "lane_change (Some s) (set_placement s p c) = None"
  by (simp add: lane_change_def)

lemma sql_max_Max: "sql_max ps = (if ps = [] then None else Some (Max (set ps)))"
proof (cases ps)
  case Nil
  then show ?thesis by simp
next
  case (Cons a list)
  then show ?thesis using Max.set_eq_fold [of a list] by simp
qed

lemma select_by_status_update_where:
  "(\<And>r. status (upd r) = status r) \<Longrightarrow>
   select_by_status (update_where cond upd rows) s =
     update_where cond upd (select_by_status rows s)"
  by (induction rows) (auto simp: select_by_status_def update_where_def)

lemma update_where_other_lane:
  "s \<noteq> s' \<Longrightarrow>
   update_where (\<lambda>r. status r = s' \<and> cond r) upd (select_by_status rows s) =
     select_by_status rows s"
  by (induction rows) (auto simp: select_by_status_def update_where_def)

text \<open>The append priority is read after the old lane closed its gap; that lane is another one.\<close>

lemma append_priority:
  assumes "s \<noteq> status c"
  shows "(case select_max_priority
               (update_where (\<lambda>r. status r = status c \<and> priority r > priority c)
                  (\<lambda>r. set_priority (priority r - 1) r) rows) s of
            None \<Rightarrow> 0 | Some m \<Rightarrow> if m \<noteq> 0 then m else 0) = maxPriorityInLane rows s"
proof -
  have "select_by_status
          (update_where (\<lambda>r. status r = status c \<and> priority r > priority c)
             (\<lambda>r. set_priority (priority r - 1) r) rows) s = select_by_status rows s"
    using assms by (simp add: select_by_status_update_where update_where_other_lane)
  then show ?thesis
    by (simp add: select_max_priority_def maxPriorityInLane_def lane_priorities_def sql_max_Max)
qed

section \<open>The update code, case by case\<close>

lemma update_code_case_A:
  assumes "lane_change (b_status b) c = Some s" and "b_priority b = Some p"
  shows "update_code rows i c b = map (case_A_row i c s p) rows"
proof -
  have "s \<noteq> status c" using assms(1) by (simp add: lane_change_Some)
  then show ?thesis
    using assms
    by (simp add: update_code_def Let_def update_where_def set_priority_def set_placement_def
        case_A_row_def)
qed

lemma update_code_case_A_append:
  assumes "lane_change (b_status b) c = Some s" and "b_priority b = None"
  shows "update_code rows i c b =
           map (case_A_append_row i c s (maxPriorityInLane rows s + 1)) rows"
proof -
  have ne: "s \<noteq> status c" using assms(1) by (simp add: lane_change_Some)
  have "update_code rows i c b =
          update_where (\<lambda>r. id_c r = i) (set_placement s (maxPriorityInLane rows s + 1))
            (update_where (\<lambda>r. status r = status c \<and> priority r > priority c)
               (\<lambda>r. set_priority (priority r - 1) r) rows)"
    using assms by (simp add: update_code_def Let_def append_priority [OF ne])
  then show ?thesis
    by (simp add: update_where_def set_priority_def set_placement_def case_A_append_row_def)
qed

lemma update_code_case_B:
  assumes "lane_change (b_status b) c = None" and "b_priority b = Some p"
    and "p \<noteq> priority c"
  shows "update_code rows i c b = map (case_B_row i c p) rows"
  using assms
  by (simp add: update_code_def Let_def update_where_def set_priority_def case_B_row_def)

lemma update_code_case_C:
  "lane_change (b_status b) c = None \<Longrightarrow>
   b_priority b = None \<or> b_priority b = Some (priority c) \<Longrightarrow>
   update_code rows i c b = rows"
  by (auto simp: update_code_def)

text \<open>After any update the client found again asks for no further change.\<close>

lemma select_by_id_update_code:
  assumes c: "select_by_id rows i = Some c"
  shows "\<exists>c'. select_by_id (update_code rows i c b) i = Some c' \<and>
        lane_change (b_status b) c' = None \<and>
        (b_priority b = None \<or> b_priority b = Some (priority c'))"
proof -
  have i: "id_c c = i" using select_by_id_Some [OF c] by simp
  have found: "\<And>f. (\<And>r. id_c (f r) = id_c r) \<Longrightarrow> select_by_id (map f rows) i = Some (f c)"
    using c select_by_id_update_where [of _ "\<lambda>r. True" rows i]
    by (simp add: update_where_def)
  show ?thesis
  proof (cases "lane_change (b_status b) c")
    case None
    show ?thesis
    proof (cases "b_priority b = None \<or> b_priority b = Some (priority c)")
      case True
      with None c show ?thesis by (simp add: update_code_case_C)
    next
      case False
      then obtain p where p: "b_priority b = Some p" "p \<noteq> priority c" by auto
      have "select_by_id (update_code rows i c b) i = Some (case_B_row i c p c)"
        by (simp add: update_code_case_B [OF None p] found case_B_row_def)
      moreover have "case_B_row i c p c = set_priority p c"
        using i by (simp add: case_B_row_def set_priority_def)
      moreover have "lane_change (b_status b) (set_priority p c) = None"
        using None lane_change_same_status [of "set_priority p c" c "b_status b"] by simp
      ultimately show ?thesis using p by simp
    qed
  next
    case (Some s)
    then have st: "b_status b = Some s" by (simp add: lane_change_Some)
    show ?thesis
    proof (cases "b_priority b")
      case None
      have "select_by_id (update_code rows i c b) i =
              Some (case_A_append_row i c s (maxPriorityInLane rows s + 1) c)"
        by (simp add: update_code_case_A_append [OF Some None] found case_A_append_row_def)
      moreover have "case_A_append_row i c s (maxPriorityInLane rows s + 1) c =
                       set_placement s (maxPriorityInLane rows s + 1) c"
        using i by (simp add: case_A_append_row_def set_placement_def)
      ultimately show ?thesis using st None by (simp add: lane_change_arrived)
    next
      case p: (Some p)
      have "select_by_id (update_code rows i c b) i = Some (case_A_row i c s p c)"
        by (simp add: update_code_case_A [OF Some p] found case_A_row_def)
      moreover have "case_A_row i c s p c = set_placement s p c"
        using i by (simp add: case_A_row_def set_placement_def)
      ultimately show ?thesis using st p by (simp add: lane_change_arrived)
    qed
  qed
qed

section \<open>Unique ids and numbered lanes\<close>

lemma unique_ids_distinct: "unique_ids rows \<Longrightarrow> distinct rows"
  by (simp add: unique_ids_def distinct_map)

lemma lane_ok_iff:
  assumes "unique_ids rows"
  shows "lane_ok rows s \<longleftrightarrow> numbered (lane rows s)"
proof -
  have d: "distinct (select_by_status rows s)"
    using unique_ids_distinct [OF assms] by (simp add: select_by_status_def)
  then have "length (select_by_status rows s) = card (lane rows s)"
    by (simp add: distinct_card)
  with d show ?thesis
    by (simp add: lane_ok_def lane_priorities_def numbered_def distinct_map)
qed

lemma contiguous_all: "contiguous rows \<longleftrightarrow> (\<forall>s. lane_ok rows s)"
proof
  assume c: "contiguous rows"
  show "\<forall>s. lane_ok rows s"
  proof
    fix s
    show "lane_ok rows s"
    proof (cases "s \<in> set (map status rows)")
      case True
      with c show ?thesis by (auto simp: contiguous_def)
    next
      case False
      then have "select_by_status rows s = []"
        by (auto simp: select_by_status_def filter_empty_conv)
      then show ?thesis by (simp add: lane_ok_def lane_priorities_def)
    qed
  qed
next
  assume "\<forall>s. lane_ok rows s"
  then show "contiguous rows" by (simp add: contiguous_def)
qed

lemma numbered_transform:
  assumes "finite A" and "inj_on priority A" and "priority ` A = S"
    and "\<forall>r\<in>A. priority (f r) = g (priority r)" and "inj_on g S"
  shows "inj_on priority (f ` A) \<and> priority ` (f ` A) = g ` S \<and> card (f ` A) = card A"
proof -
  have eq: "\<And>r. r \<in> A \<Longrightarrow> (priority \<circ> f) r = (g \<circ> priority) r"
    using assms(4) by simp
  have "inj_on (g \<circ> priority) A"
    using assms(2,3,5) by (simp add: comp_inj_on)
  then have i: "inj_on (priority \<circ> f) A"
    using eq by (simp add: inj_on_def)
  then have "inj_on f A" by (rule inj_on_imageI2)
  moreover have "inj_on priority (f ` A)"
    using i by (rule inj_on_imageI)
  moreover have "priority ` (f ` A) = g ` S"
    using assms(3,4) by (force simp: image_iff)
  ultimately show ?thesis by (simp add: card_image)
qed

lemma close_gap_image:
  fixes old N :: int
  assumes "1 \<le> old" "old \<le> N"
  shows "inj_on (\<lambda>x::int. if x > old then x - 1 else x) ({1..N} - {old}) \<and>
         (\<lambda>x::int. if x > old then x - 1 else x) ` ({1..N} - {old}) = {1..N - 1}"
proof (intro conjI set_eqI iffI)
  show "inj_on (\<lambda>x::int. if x > old then x - 1 else x) ({1..N} - {old})"
    using assms by (auto simp: inj_on_def split: if_splits)
next
  fix y assume "y \<in> (\<lambda>x::int. if x > old then x - 1 else x) ` ({1..N} - {old})"
  then show "y \<in> {1..N - 1}" using assms by (auto split: if_splits)
next
  fix y assume y: "y \<in> {1..N - 1}"
  let ?x = "if y \<ge> old then y + 1 else y"
  have "?x \<in> {1..N} - {old}" using assms y by auto
  moreover have "y = (if ?x > old then ?x - 1 else ?x)" using assms y by auto
  ultimately show "y \<in> (\<lambda>x::int. if x > old then x - 1 else x) ` ({1..N} - {old})"
    by (rule rev_image_eqI)
qed

lemma make_room_image:
  fixes p N :: int
  assumes "1 \<le> p" "p \<le> N + 1"
  shows "inj_on (\<lambda>x::int. if x \<ge> p then x + 1 else x) {1..N} \<and>
         (\<lambda>x::int. if x \<ge> p then x + 1 else x) ` {1..N} = {1..N + 1} - {p}"
proof (intro conjI set_eqI iffI)
  show "inj_on (\<lambda>x::int. if x \<ge> p then x + 1 else x) {1..N}"
    using assms by (auto simp: inj_on_def split: if_splits)
next
  fix y assume "y \<in> (\<lambda>x::int. if x \<ge> p then x + 1 else x) ` {1..N}"
  then show "y \<in> {1..N + 1} - {p}" using assms by (auto split: if_splits)
next
  fix y assume y: "y \<in> {1..N + 1} - {p}"
  let ?x = "if y > p then y - 1 else y"
  have "?x \<in> {1..N}" using assms y by auto
  moreover have "y = (if ?x \<ge> p then ?x + 1 else ?x)" using assms y by auto
  ultimately show "y \<in> (\<lambda>x::int. if x \<ge> p then x + 1 else x) ` {1..N}"
    by (rule rev_image_eqI)
qed

lemma unique_ids_inj: "unique_ids rows \<Longrightarrow> inj_on id_c (set rows)"
  by (simp add: unique_ids_def distinct_map)

lemma client_unique:
  assumes "unique_ids rows" and "select_by_id rows i = Some c"
    and "r \<in> set rows" and "id_c r = i"
  shows "r = c"
  using unique_ids_inj [OF assms(1)] select_by_id_Some [OF assms(2)] assms(3,4)
  by (auto simp: inj_on_def)

section \<open>The row-wise shape of an update\<close>

lemma case_rows_keep [simp]:
  "id_c (case_A_row i c s p r) = id_c r" "name (case_A_row i c s p r) = name r"
  "description (case_A_row i c s p r) = description r"
  "id_c (case_A_append_row i c s p r) = id_c r" "name (case_A_append_row i c s p r) = name r"
  "description (case_A_append_row i c s p r) = description r"
  "id_c (case_B_row i c p r) = id_c r" "name (case_B_row i c p r) = name r"
  "description (case_B_row i c p r) = description r"
  by (simp_all add: case_A_row_def case_A_append_row_def case_B_row_def)

text \<open>Every run of the update code rewrites the table row by row.\<close>

lemma update_code_rowwise:
  "\<exists>f. update_code rows i c b = map f rows \<and>
       (\<forall>r. id_c (f r) = id_c r \<and> name (f r) = name r \<and> description (f r) = description r) \<and>
       (\<forall>r. id_c r \<noteq> i \<longrightarrow> status r \<noteq> status c \<longrightarrow>
            lane_change (b_status b) c \<noteq> Some (status r) \<longrightarrow> f r = r)"
proof (cases "lane_change (b_status b) c")
  case None
  show ?thesis
  proof (cases "b_priority b = None \<or> b_priority b = Some (priority c)")
    case True
    have "update_code rows i c b = map (\<lambda>r. r) rows"
      using update_code_case_C [OF None True] by simp
    then show ?thesis by blast
  next
    case False
    then obtain p where p: "b_priority b = Some p" "p \<noteq> priority c" by auto
    have "\<forall>r. id_c r \<noteq> i \<longrightarrow> status r \<noteq> status c \<longrightarrow> case_B_row i c p r = r"
      by (simp add: case_B_row_def)
    then show ?thesis
      using update_code_case_B [OF None p, of rows i] by (intro exI [of _ "case_B_row i c p"]) simp
  qed
next
  case (Some s)
  show ?thesis
  proof (cases "b_priority b")
    case None
    have "\<forall>r. id_c r \<noteq> i \<longrightarrow> status r \<noteq> status c \<longrightarrow>
            case_A_append_row i c s (maxPriorityInLane rows s + 1) r = r"
      by (simp add: case_A_append_row_def)
    then show ?thesis
      using update_code_case_A_append [OF Some None, of rows i]
      by (intro exI [of _ "case_A_append_row i c s (maxPriorityInLane rows s + 1)"]) simp
  next
    case p: (Some p)
    have "\<forall>r. id_c r \<noteq> i \<longrightarrow> status r \<noteq> status c \<longrightarrow> s \<noteq> status r \<longrightarrow>
            case_A_row i c s p r = r"
      by (simp add: case_A_row_def)
    then show ?thesis
      using update_code_case_A [OF Some p, of rows i] Some
      by (intro exI [of _ "case_A_row i c s p"]) simp
  qed
qed

lemma put_client_rowwise:
  "\<exists>f. snd (put_client rows idp b) = map f rows \<and>
       (\<forall>r. id_c (f r) = id_c r \<and> name (f r) = name r \<and> description (f r) = description r) \<and>
       (\<forall>i c r. idp = Some i \<longrightarrow> select_by_id rows i = Some c \<longrightarrow>
            id_c r \<noteq> i \<longrightarrow> status r \<noteq> status c \<longrightarrow>
            lane_change (b_status b) c \<noteq> Some (status r) \<longrightarrow> f r = r)"
proof (cases "validateId rows idp")
  case (Invalid m l)
  then have "snd (put_client rows idp b) = map (\<lambda>r. r) rows"
    by (simp add: put_client_def)
  then show ?thesis by blast
next
  case Valid
  then obtain i c where i: "idp = Some i" and c: "select_by_id rows i = Some c"
    by (auto simp: validateId_def split: option.splits)
  from update_code_rowwise [of rows i c b] obtain f where
    f: "update_code rows i c b = map f rows"
      "\<forall>r. id_c (f r) = id_c r \<and> name (f r) = name r \<and> description (f r) = description r"
      "\<forall>r. id_c r \<noteq> i \<longrightarrow> status r \<noteq> status c \<longrightarrow>
            lane_change (b_status b) c \<noteq> Some (status r) \<longrightarrow> f r = r"
    by blast
  have "snd (put_client rows idp b) = map f rows"
    using i c f(1) by (simp add: put_client_found)
  then show ?thesis using i c f(2,3) by (intro exI [of _ f]) simp
qed

section \<open>Leaving a lane and coming back\<close>

lemma lane_priority_inj:
  assumes "lane_ok rows s" and "r \<in> set rows" and "r' \<in> set rows"
    and "status r = s" and "status r' = s" and "priority r = priority r'"
  shows "r = r'"
proof -
  have "inj_on priority (lane rows s)"
    using assms(1) by (simp add: lane_ok_def lane_priorities_def distinct_map)
  moreover have "r \<in> lane rows s" "r' \<in> lane rows s"
    using assms(2-5) by (simp_all add: select_by_status_def)
  ultimately show ?thesis using assms(6) by (simp add: inj_on_def)
qed

lemma select_by_status_map_frame:
  "\<forall>r\<in>set rows. (status r = s \<longrightarrow> g r = r) \<and> (status r \<noteq> s \<longrightarrow> status (g r) \<noteq> s) \<Longrightarrow>
   select_by_status (map g rows) s = select_by_status rows s"
  by (induction rows) (auto simp: select_by_status_def)

lemma select_by_id_map:
  "(\<And>r. id_c (f r) = id_c r) \<Longrightarrow> select_by_id rows i = Some c \<Longrightarrow>
   select_by_id (map f rows) i = Some (f c)"
  using select_by_id_update_where [of f "\<lambda>r. True" rows i] by (simp add: update_where_def)

text \<open>Case A, with or without a priority, takes the client out of its lane row by row.\<close>

lemma update_code_leaves:
  assumes "lane_change (b_status b) c = Some s"
  shows "\<exists>f q. update_code rows i c b = map f rows \<and>
           (\<forall>r. id_c (f r) = id_c r) \<and>
           (\<forall>r. id_c r = i \<longrightarrow> f r = r\<lparr>status := s, priority := q\<rparr>) \<and>
           (\<forall>r. id_c r \<noteq> i \<longrightarrow> status (f r) = status r) \<and>
           (\<forall>r. id_c r \<noteq> i \<longrightarrow> status r = status c \<longrightarrow>
                f r = (if priority r > priority c then r\<lparr>priority := priority r - 1\<rparr> else r))"
proof -
  have ne: "s \<noteq> status c" using assms by (simp add: lane_change_Some)
  show ?thesis
  proof (cases "b_priority b")
    case None
    show ?thesis
      using update_code_case_A_append [OF assms None, of rows i]
      by (intro exI [of _ "case_A_append_row i c s (maxPriorityInLane rows s + 1)"]
          exI [of _ "maxPriorityInLane rows s + 1"])
        (simp add: case_A_append_row_def)
  next
    case (Some p)
    show ?thesis
      using update_code_case_A [OF assms Some, of rows i] ne
      by (intro exI [of _ "case_A_row i c s p"] exI [of _ p]) (simp add: case_A_row_def)
  qed
qed

section \<open>The invariant, lane by lane\<close>

lemma lane_iff: "r \<in> lane rows s \<longleftrightarrow> r \<in> set rows \<and> status r = s"
  by (simp add: select_by_status_def)

lemma lane_map: "lane (map f rows) s = f ` {r \<in> set rows. status (f r) = s}"
  by (auto simp: select_by_status_def)

lemma unique_ids_map:
  "(\<And>r. id_c (f r) = id_c r) \<Longrightarrow> unique_ids rows \<Longrightarrow> unique_ids (map f rows)"
  by (simp add: unique_ids_def comp_def)

lemma lane_card:
  assumes "unique_ids rows"
  shows "card (lane rows s) = length (lane_priorities rows s)"
proof -
  have "distinct (select_by_status rows s)"
    using unique_ids_distinct [OF assms] by (simp add: select_by_status_def)
  then show ?thesis by (simp add: distinct_card lane_priorities_def)
qed

lemma rerank_perm:
  fixes old p N :: int
  assumes "1 \<le> old" "old \<le> N" "1 \<le> p" "p \<le> N"
  defines "g \<equiv> \<lambda>x. if x = old then p
                     else if p > old \<and> old < x \<and> x \<le> p then x - 1
                     else if p < old \<and> p \<le> x \<and> x < old then x + 1 else x"
  shows "inj_on g {1..N} \<and> g ` {1..N} = {1..N}"
proof (intro conjI set_eqI iffI)
  show "inj_on g {1..N}"
    using assms(1-4) by (auto simp: g_def inj_on_def split: if_splits)
next
  fix y assume "y \<in> g ` {1..N}"
  then show "y \<in> {1..N}"
    using assms(1-4) by (auto simp: g_def split: if_splits)
next
  fix y assume y: "y \<in> {1..N}"
  let ?x = "if y = p then old
            else if old < p \<and> old \<le> y \<and> y < p then y + 1
            else if p < old \<and> p < y \<and> y \<le> old then y - 1 else y"
  have "?x \<in> {1..N}" using assms(1-4) y by auto
  moreover have "y = g ?x" using assms(1-4) y by (auto simp: g_def)
  ultimately show "y \<in> g ` {1..N}" by (rule rev_image_eqI)
qed

lemma numbered_member:
  "numbered A \<Longrightarrow> finite A \<Longrightarrow> r \<in> A \<Longrightarrow> 1 \<le> priority r \<and> priority r \<le> int (card A)"
  by (auto simp: numbered_def)

lemma numbered_case_B:
  assumes u: "unique_ids rows" and n: "\<forall>s. numbered (lane rows s)"
    and c: "select_by_id rows i = Some c"
    and p: "1 \<le> p" "p \<le> int (card (lane rows (status c)))"
  shows "numbered (lane (map (case_B_row i c p) rows) s)"
proof -
  let ?f = "case_B_row i c p"
  have st: "\<And>r. status (?f r) = status r" by (simp add: case_B_row_def)
  have lm: "lane (map ?f rows) s = ?f ` lane rows s"
    by (auto simp: lane_map st lane_iff)
  have ci: "c \<in> set rows" "id_c c = i" using select_by_id_Some [OF c] by simp_all
  show ?thesis
  proof (cases "s = status c")
    case False
    have "\<forall>r\<in>lane rows s. ?f r = r"
    proof
      fix r assume r: "r \<in> lane rows s"
      then have "id_c r \<noteq> i" using client_unique [OF u c, of r] False by (auto simp: lane_iff)
      then show "?f r = r" using r False by (simp add: case_B_row_def lane_iff)
    qed
    then have "?f ` lane rows s = lane rows s" by simp
    then show ?thesis using n lm by simp
  next
    case True
    let ?A = "lane rows s"
    let ?N = "int (card ?A)"
    let ?g = "\<lambda>x. if x = priority c then p
                 else if p > priority c \<and> priority c < x \<and> x \<le> p then x - 1
                 else if p < priority c \<and> p \<le> x \<and> x < priority c then x + 1 else x"
    have nA: "numbered ?A" using n by simp
    have cA: "c \<in> ?A" using ci True by (simp add: lane_iff)
    have old: "1 \<le> priority c" "priority c \<le> ?N"
      using numbered_member [OF nA _ cA] by simp_all
    have step: "\<forall>r\<in>?A. priority (?f r) = ?g (priority r)"
    proof
      fix r assume r: "r \<in> ?A"
      show "priority (?f r) = ?g (priority r)"
      proof (cases "r = c")
        case True
        then show ?thesis using ci by (simp add: case_B_row_def)
      next
        case False
        then have "id_c r \<noteq> i" using client_unique [OF u c, of r] r by (auto simp: lane_iff)
        moreover have "priority r \<noteq> priority c"
          using nA r cA False by (auto simp: numbered_def inj_on_def)
        ultimately show ?thesis using r True by (simp add: case_B_row_def lane_iff)
      qed
    qed
    have perm: "inj_on ?g {1..?N} \<and> ?g ` {1..?N} = {1..?N}"
      using rerank_perm [OF old p(1)] p(2) True by simp
    have "inj_on priority (?f ` ?A) \<and> priority ` (?f ` ?A) = ?g ` {1..?N} \<and>
          card (?f ` ?A) = card ?A"
      using nA step perm by (intro numbered_transform) (simp_all add: numbered_def)
    then show ?thesis using perm lm by (simp add: numbered_def)
  qed
qed

lemma numbered_insert:
  assumes "finite B" and "inj_on priority B" and "priority ` B = {1..N + 1} - {p}"
    and "int (card B) = N" and "priority x = p" and "1 \<le> p" and "p \<le> N + 1"
  shows "numbered (insert x B)"
proof -
  have notin: "x \<notin> B" using assms(3,5) by (metis DiffE image_eqI singletonI)
  have "inj_on priority (insert x B)"
    using assms(2,3,5) notin by auto
  moreover have "priority ` insert x B = {1..N + 1}"
    using assms(3,5,6,7) by auto
  moreover have "int (card (insert x B)) = N + 1"
    using assms(1,4) notin by simp
  ultimately show ?thesis by (simp add: numbered_def)
qed

lemma numbered_remove:
  assumes "finite A" and "numbered A" and "c \<in> A"
    and "\<forall>r\<in>A - {c}. priority (f r) = (if priority r > priority c then priority r - 1 else priority r)"
  shows "numbered (f ` (A - {c}))"
proof -
  let ?N = "int (card A)"
  let ?h = "\<lambda>x::int. if x > priority c then x - 1 else x"
  have old: "1 \<le> priority c" "priority c \<le> ?N"
    using numbered_member [OF assms(2,1,3)] by simp_all
  have inj: "inj_on priority A" and img: "priority ` A = {1..?N}"
    using assms(2) by (simp_all add: numbered_def)
  have "priority ` (A - {c}) = {1..?N} - {priority c}"
    using inj img assms(3) by (auto simp: inj_on_def)
  moreover have "inj_on priority (A - {c})"
    using inj by (rule inj_on_subset) auto
  moreover have "inj_on ?h ({1..?N} - {priority c}) \<and>
                 ?h ` ({1..?N} - {priority c}) = {1..?N - 1}"
    using close_gap_image [OF old] .
  ultimately have "inj_on priority (f ` (A - {c})) \<and>
      priority ` (f ` (A - {c})) = ?h ` ({1..?N} - {priority c}) \<and>
      card (f ` (A - {c})) = card (A - {c})"
    using assms(1,4) by (intro numbered_transform) simp_all
  moreover have "int (card (A - {c})) = ?N - 1"
    using assms(1,3) old by (simp add: card_Diff_singleton)
  ultimately show ?thesis
    using close_gap_image [OF old] by (simp add: numbered_def)
qed

lemma numbered_case_A:
  assumes u: "unique_ids rows" and n: "\<forall>s. numbered (lane rows s)"
    and c: "select_by_id rows i = Some c" and ne: "s1 \<noteq> status c"
    and p: "1 \<le> p" "p \<le> int (card (lane rows s1)) + 1"
  shows "numbered (lane (map (case_A_row i c s1 p) rows) s)"
proof -
  let ?f = "case_A_row i c s1 p"
  have ci: "c \<in> set rows" "id_c c = i" using select_by_id_Some [OF c] by simp_all
  have other: "id_c r \<noteq> i" if "r \<in> set rows" "r \<noteq> c" for r
    using client_unique [OF u c that(1)] that(2) by auto
  have fc: "?f c = c\<lparr>status := s1, priority := p\<rparr>"
    using ci by (simp add: case_A_row_def)
  have st: "status (?f r) = (if r = c then s1 else status r)" if "r \<in> set rows" for r
    using other [OF that] ci by (simp add: case_A_row_def)
  have src: "{r \<in> set rows. status (?f r) = s} =
               (if s = s1 then insert c (lane rows s1)
                else if s = status c then lane rows s - {c} else lane rows s)"
    using st ci ne by (auto simp: lane_iff split: if_splits)
  show ?thesis
  proof (cases "s = s1")
    case True
    let ?A = "lane rows s1"
    let ?N = "int (card ?A)"
    let ?k = "\<lambda>x::int. if x \<ge> p then x + 1 else x"
    have nA: "numbered ?A" using n by simp
    have step: "\<forall>r\<in>?A. priority (?f r) = ?k (priority r)"
    proof
      fix r assume r: "r \<in> ?A"
      then have "r \<noteq> c" using ne by (auto simp: lane_iff)
      then have "id_c r \<noteq> i" using other r by (simp add: lane_iff)
      then show "priority (?f r) = ?k (priority r)"
        using r ne by (simp add: case_A_row_def lane_iff)
    qed
    have room: "inj_on ?k {1..?N} \<and> ?k ` {1..?N} = {1..?N + 1} - {p}"
      using make_room_image [OF p] .
    have "inj_on priority (?f ` ?A) \<and> priority ` (?f ` ?A) = ?k ` {1..?N} \<and>
          card (?f ` ?A) = card ?A"
      using nA step room by (intro numbered_transform) (simp_all add: numbered_def)
    then have "numbered (insert (?f c) (?f ` ?A))"
      using room p fc by (intro numbered_insert [of _ ?N p]) simp_all
    then show ?thesis using True src by (simp add: lane_map)
  next
    case False
    show ?thesis
    proof (cases "s = status c")
      case True
      let ?A = "lane rows s"
      have cA: "c \<in> ?A" using ci True by (simp add: lane_iff)
      have "\<forall>r\<in>?A - {c}. priority (?f r) =
              (if priority r > priority c then priority r - 1 else priority r)"
      proof
        fix r assume r: "r \<in> ?A - {c}"
        then have "id_c r \<noteq> i" using other by (simp add: lane_iff)
        then show "priority (?f r) =
              (if priority r > priority c then priority r - 1 else priority r)"
          using r True ne by (simp add: case_A_row_def lane_iff)
      qed
      then have "numbered (?f ` (?A - {c}))"
        using n cA by (intro numbered_remove) simp_all
      then show ?thesis using True False src by (simp add: lane_map)
    next
      case F: False
      have "\<forall>r\<in>lane rows s. ?f r = r"
      proof
        fix r assume r: "r \<in> lane rows s"
        then have "r \<noteq> c" using F by (auto simp: lane_iff)
        then have "id_c r \<noteq> i" using other r by (simp add: lane_iff)
        then show "?f r = r" using r F False by (simp add: case_A_row_def lane_iff)
      qed
      then have "?f ` lane rows s = lane rows s" by simp
      then show ?thesis using n False F src by (simp add: lane_map)
    qed
  qed
qed

lemma max_numbered:
  assumes "unique_ids rows" and "numbered (lane rows s)"
  shows "maxPriorityInLane rows s = int (card (lane rows s))"
proof (cases "lane_priorities rows s = []")
  case True
  then show ?thesis
    using lane_card [OF assms(1), of s] by (simp add: maxPriorityInLane_def)
next
  case False
  have "set (lane_priorities rows s) = {1..int (card (lane rows s))}"
    using assms(2) by (simp add: numbered_def lane_priorities_def)
  moreover have "1 \<le> int (card (lane rows s))"
    using False lane_card [OF assms(1), of s] by (cases "lane_priorities rows s") simp_all
  moreover have "Max {1..N} = N" if "1 \<le> N" for N :: int
    using that by (intro Max_eqI) auto
  ultimately have "Max (set (lane_priorities rows s)) = int (card (lane rows s))"
    by simp
  then show ?thesis using False by (simp add: maxPriorityInLane_def)
qed

lemma append_as_case_A:
  assumes "unique_ids rows" and "numbered (lane rows s)"
  shows "map (case_A_append_row i c s (maxPriorityInLane rows s + 1)) rows =
         map (case_A_row i c s (int (card (lane rows s)) + 1)) rows"
proof (rule map_cong [OF refl])
  fix r assume r: "r \<in> set rows"
  have "priority r \<le> int (card (lane rows s))" if "status r = s"
    using numbered_member [OF assms(2), of r] r that by (simp add: lane_iff)
  then show "case_A_append_row i c s (maxPriorityInLane rows s + 1) r =
             case_A_row i c s (int (card (lane rows s)) + 1) r"
    by (auto simp: case_A_append_row_def case_A_row_def max_numbered [OF assms])
qed

lemma numbered_all:
  "unique_ids rows \<Longrightarrow> contiguous rows \<longleftrightarrow> (\<forall>s. numbered (lane rows s))"
  by (simp add: contiguous_all lane_ok_iff)

section \<open>The status filter of GET\<close>

lemma get_invalid_status:
  "s \<noteq> [] \<Longrightarrow> s \<noteq> ''backlog'' \<Longrightarrow> s \<noteq> ''in-progress'' \<Longrightarrow> s \<noteq> ''complete'' \<Longrightarrow>
   get_clients rows (Some s) =
     Bad400 ''Invalid status provided.''
       ''Status can only be one of the following: [backlog | in-progress | complete].''"
  by (simp add: get_clients_def)

section \<open>Claims\<close>

text \<open>
  Claim C1, as amended. On a table with unique ids whose lanes are all numbered \<open>1..N\<close>,
  a PUT for an existing client whose priority, when given, lies in \<open>1..N+1\<close> of the
  destination lane on a lane change (\<open>N\<close> its size before the move), or in \<open>1..N\<close> of
  the client's own lane otherwise, leaves every lane numbered \<open>1..N\<close> again, without
  duplicates or gaps, and the ids unique. The claim as stated, for any priority, fails:
  priority 50 in the backlog of three leaves the priorities 50, 1, 2.
\<close>

theorem invariant_preserved:
  assumes u: "unique_ids rows" and ct: "contiguous rows"
    and c: "select_by_id rows i = Some c"
    and range: "\<forall>p. b_priority b = Some p \<longrightarrow>
                 1 \<le> p \<and>
                 p \<le> (case lane_change (b_status b) c of
                        Some s \<Rightarrow> int (length (lane_priorities rows s)) + 1
                      | None \<Rightarrow> int (length (lane_priorities rows (status c))))"
  shows "contiguous (snd (put_client rows (Some i) b)) \<and>
         unique_ids (snd (put_client rows (Some i) b))"
proof -
  have n: "\<forall>s. numbered (lane rows s)" using u ct by (simp add: numbered_all)
  have res: "snd (put_client rows (Some i) b) = update_code rows i c b"
    by (simp add: put_client_found [OF c])
  have "\<exists>f. update_code rows i c b = map f rows \<and> (\<forall>r. id_c (f r) = id_c r) \<and>
            (\<forall>s. numbered (lane (map f rows) s))"
  proof (cases "lane_change (b_status b) c")
    case None
    show ?thesis
    proof (cases "b_priority b = None \<or> b_priority b = Some (priority c)")
      case True
      have "update_code rows i c b = map (\<lambda>r. r) rows"
        using update_code_case_C [OF None True] by simp
      then show ?thesis using n by (intro exI [of _ "\<lambda>r. r"]) simp
    next
      case False
      then obtain p where p: "b_priority b = Some p" "p \<noteq> priority c" by auto
      have "1 \<le> p" "p \<le> int (card (lane rows (status c)))"
        using range p(1) None by (simp_all add: lane_card [OF u])
      then have "\<forall>s. numbered (lane (map (case_B_row i c p) rows) s)"
        using numbered_case_B [OF u n c] by blast
      then show ?thesis
        using update_code_case_B [OF None p, of rows i]
        by (intro exI [of _ "case_B_row i c p"]) simp
    qed
  next
    case (Some s)
    have ne: "s \<noteq> status c" using Some by (simp add: lane_change_Some)
    show ?thesis
    proof (cases "b_priority b")
      case None
      let ?p = "int (card (lane rows s)) + 1"
      have "\<forall>t. numbered (lane (map (case_A_row i c s ?p) rows) t)"
        using numbered_case_A [OF u n c ne, of ?p] by simp
      moreover have "update_code rows i c b = map (case_A_row i c s ?p) rows"
        using update_code_case_A_append [OF Some None, of rows i] append_as_case_A [OF u] n
        by simp
      ultimately show ?thesis by (intro exI [of _ "case_A_row i c s ?p"]) simp
    next
      case p: (Some p)
      have "1 \<le> p" "p \<le> int (card (lane rows s)) + 1"
        using range p Some by (simp_all add: lane_card [OF u])
      then have "\<forall>t. numbered (lane (map (case_A_row i c s p) rows) t)"
        using numbered_case_A [OF u n c ne] by blast
      then show ?thesis
        using update_code_case_A [OF Some p, of rows i]
        by (intro exI [of _ "case_A_row i c s p"]) simp
    qed
  qed
  then obtain f where f: "update_code rows i c b = map f rows" "\<forall>r. id_c (f r) = id_c r"
    "\<forall>s. numbered (lane (map f rows) s)" by blast
  have "unique_ids (map f rows)" using f(2) u by (simp add: unique_ids_map)
  then show ?thesis using f(1,3) res by (simp add: numbered_all)
qed

theorem invariant_preserved_witness:
  "unique_ids board \<and> contiguous board \<and>
   select_by_id board 5 =
     Some \<lparr>id_c = 5, name = ''Q2'', description = [], status = ''in-progress'', priority = 2\<rparr> \<and>
   lane_priorities board ''backlog'' = [1, 2, 3] \<and>
   summary (snd (put_client board (Some 5) \<lparr>b_status = Some ''backlog'', b_priority = Some 4\<rparr>)) =
     [(''P1'', ''backlog'', 1), (''P2'', ''backlog'', 2), (''P3'', ''backlog'', 3),
      (''Q1'', ''in-progress'', 1), (''Q2'', ''backlog'', 4), (''R1'', ''complete'', 1)] \<and>
   contiguous (snd (put_client board (Some 5) \<lparr>b_status = Some ''backlog'', b_priority = Some 4\<rparr>))"
proof -
  have u: "unique_ids board" by (simp add: board_def backlog3_def unique_ids_def)
  have c: "contiguous board"
    by (simp add: board_def backlog3_def invariant_defs select_by_status_def simp_from_to)
  have f: "select_by_id board 5 =
      Some \<lparr>id_c = 5, name = ''Q2'', description = [], status = ''in-progress'', priority = 2\<rparr>"
    by (simp add: board_def backlog3_def select_by_id_def)
  have l: "lane_priorities board ''backlog'' = [1, 2, 3]"
    by (simp add: board_def backlog3_def lane_priorities_def select_by_status_def)
  have s: "summary (snd (put_client board (Some 5)
                          \<lparr>b_status = Some ''backlog'', b_priority = Some 4\<rparr>)) =
     [(''P1'', ''backlog'', 1), (''P2'', ''backlog'', 2), (''P3'', ''backlog'', 3),
      (''Q1'', ''in-progress'', 1), (''Q2'', ''backlog'', 4), (''R1'', ''complete'', 1)]"
    by (simp add: board_def backlog3_def summary_def handler_defs)
  show ?thesis
    using u c f l s
      invariant_preserved [OF u c f, of "\<lparr>b_status = Some ''backlog'', b_priority = Some 4\<rparr>"]
    by (simp add: lane_change_def)
qed

theorem invariant_counterexample:
  "unique_ids backlog3 \<and> contiguous backlog3 \<and>
   fst (put_client backlog3 (Some 1) \<lparr>b_status = None, b_priority = Some 50\<rparr>) =
     Ok200 (snd (put_client backlog3 (Some 1) \<lparr>b_status = None, b_priority = Some 50\<rparr>)) \<and>
   summary (snd (put_client backlog3 (Some 1) \<lparr>b_status = None, b_priority = Some 50\<rparr>)) =
     [(''P1'', ''backlog'', 50), (''P2'', ''backlog'', 1), (''P3'', ''backlog'', 2)] \<and>
   \<not> contiguous (snd (put_client backlog3 (Some 1) \<lparr>b_status = None, b_priority = Some 50\<rparr>))"
proof -
  have ne: "{50, 1, 2} \<noteq> {1, 2, 3::int}"
  proof
    assume "{50, 1, 2} = {1, 2, 3::int}"
    then have "(50::int) \<in> {1, 2, 3}" by (metis insertI1)
    then show False by simp
  qed
  show ?thesis
    using ne by (simp add: backlog3_def summary_def handler_defs invariant_defs simp_from_to)
qed

text \<open>
  Claim C2. A lane change with a priority given (the status is provided, non-empty, and
  differs from the client's lane): the table afterwards is the old one with the moved
  client at exactly the new lane and the new priority, every other client of the
  destination lane with priority \<open>\<ge>\<close> the new one incremented by one, and every other
  client of the old lane with priority \<open>>\<close> the client's old one decremented by one.
\<close>

theorem lane_change_with_priority:
  assumes "select_by_id rows i = Some c"
    and "b_status b = Some s" and "s \<noteq> []" and "s \<noteq> status c"
    and "b_priority b = Some p"
  shows "put_client rows (Some i) b =
           (Ok200 (map (case_A_row i c s p) rows), map (case_A_row i c s p) rows)"
proof -
  have "lane_change (b_status b) c = Some s"
    using assms(2-4) by (simp add: lane_change_Some)
  then show ?thesis
    using assms(1,5) by (simp add: put_client_found update_code_case_A)
qed

theorem lane_change_with_priority_witness:
  "select_by_id board 2 =
     Some \<lparr>id_c = 2, name = ''P2'', description = [], status = ''backlog'', priority = 2\<rparr> \<and>
   summary (snd (put_client board (Some 2)
               \<lparr>b_status = Some ''in-progress'', b_priority = Some 1\<rparr>)) =
     [(''P1'', ''backlog'', 1), (''P2'', ''in-progress'', 1), (''P3'', ''backlog'', 2),
      (''Q1'', ''in-progress'', 2), (''Q2'', ''in-progress'', 3), (''R1'', ''complete'', 1)]"
proof -
  have f: "select_by_id board 2 =
      Some \<lparr>id_c = 2, name = ''P2'', description = [], status = ''backlog'', priority = 2\<rparr>"
    by (simp add: board_def backlog3_def select_by_id_def)
  show ?thesis
    using f lane_change_with_priority [OF f,
        of "\<lparr>b_status = Some ''in-progress'', b_priority = Some 1\<rparr>" "''in-progress''" 1]
    by (simp add: board_def backlog3_def case_A_row_def summary_def)
qed

text \<open>
  Claim C3. A same-lane re-rank (status absent or the current lane, priority given and
  different from the current one): moving down, every other client of the lane with
  priority in \<open>(old, new]\<close> is decremented by one; moving up, every other client with
  priority in \<open>[new, old)\<close> is incremented by one; the moved client gets the new
  priority. On the backlog P1=1, P2=2, P3=3, setting P1 to 3 gives P2=1, P3=2, P1=3.
\<close>

theorem same_lane_rerank:
  "(select_by_id rows i = Some c \<and>
    (b_status b = None \<or> b_status b = Some (status c)) \<and>
    b_priority b = Some p \<and> p \<noteq> priority c \<longrightarrow>
    put_client rows (Some i) b =
      (Ok200 (map (case_B_row i c p) rows), map (case_B_row i c p) rows)) \<and>
   summary (snd (put_client backlog3 (Some 1) \<lparr>b_status = None, b_priority = Some 3\<rparr>)) =
     [(''P1'', ''backlog'', 3), (''P2'', ''backlog'', 1), (''P3'', ''backlog'', 2)]"
proof (intro conjI impI)
  assume a: "select_by_id rows i = Some c \<and>
    (b_status b = None \<or> b_status b = Some (status c)) \<and>
    b_priority b = Some p \<and> p \<noteq> priority c"
  then have "lane_change (b_status b) c = None"
    by (auto simp: lane_change_def)
  then show "put_client rows (Some i) b =
      (Ok200 (map (case_B_row i c p) rows), map (case_B_row i c p) rows)"
    using a by (simp add: put_client_found update_code_case_B)
next
  show "summary (snd (put_client backlog3 (Some 1) \<lparr>b_status = None, b_priority = Some 3\<rparr>)) =
     [(''P1'', ''backlog'', 3), (''P2'', ''backlog'', 1), (''P3'', ''backlog'', 2)]"
    by (simp add: backlog3_def summary_def handler_defs)
qed

theorem same_lane_rerank_witness:
  "select_by_id board 3 =
     Some \<lparr>id_c = 3, name = ''P3'', description = [], status = ''backlog'', priority = 3\<rparr> \<and>
   summary (snd (put_client board (Some 3) \<lparr>b_status = Some ''backlog'', b_priority = Some 1\<rparr>)) =
     [(''P1'', ''backlog'', 2), (''P2'', ''backlog'', 3), (''P3'', ''backlog'', 1),
      (''Q1'', ''in-progress'', 1), (''Q2'', ''in-progress'', 2), (''R1'', ''complete'', 1)]"
proof -
  have f: "select_by_id board 3 =
      Some \<lparr>id_c = 3, name = ''P3'', description = [], status = ''backlog'', priority = 3\<rparr>"
    by (simp add: board_def backlog3_def select_by_id_def)
  show ?thesis
    using f same_lane_rerank [of board 3
        "\<lparr>id_c = 3, name = ''P3'', description = [], status = ''backlog'', priority = 3\<rparr>"
        "\<lparr>b_status = Some ''backlog'', b_priority = Some 1\<rparr>" 1]
    by (simp add: board_def backlog3_def case_B_row_def summary_def)
qed

text \<open>
  Claim C4. A lane change without a priority: the moved client gets
  \<open>maxPriorityInLane\<close> of the destination lane plus one, which is 0 plus one for an empty
  lane, and every other client of the old lane below the client's old position moves up
  by one. On the backlog P1=1, P2=2, P3=3, moving P1 to in-progress leaves P2=1, P3=2.
\<close>

theorem lane_change_append:
  "(select_by_id rows i = Some c \<and>
    b_status b = Some s \<and> s \<noteq> [] \<and> s \<noteq> status c \<and> b_priority b = None \<longrightarrow>
    put_client rows (Some i) b =
      (Ok200 (map (case_A_append_row i c s (maxPriorityInLane rows s + 1)) rows),
       map (case_A_append_row i c s (maxPriorityInLane rows s + 1)) rows)) \<and>
   (lane_priorities rows s = [] \<longrightarrow> maxPriorityInLane rows s = 0) \<and>
   summary (snd (put_client backlog3 (Some 1)
                  \<lparr>b_status = Some ''in-progress'', b_priority = None\<rparr>)) =
     [(''P1'', ''in-progress'', maxPriorityInLane backlog3 ''in-progress'' + 1),
      (''P2'', ''backlog'', 1), (''P3'', ''backlog'', 2)]"
proof (intro conjI impI)
  assume a: "select_by_id rows i = Some c \<and>
    b_status b = Some s \<and> s \<noteq> [] \<and> s \<noteq> status c \<and> b_priority b = None"
  then have "lane_change (b_status b) c = Some s"
    by (simp add: lane_change_Some)
  then show "put_client rows (Some i) b =
      (Ok200 (map (case_A_append_row i c s (maxPriorityInLane rows s + 1)) rows),
       map (case_A_append_row i c s (maxPriorityInLane rows s + 1)) rows)"
    using a by (simp add: put_client_found update_code_case_A_append)
next
  assume "lane_priorities rows s = []"
  then show "maxPriorityInLane rows s = 0" by (simp add: maxPriorityInLane_def)
next
  show "summary (snd (put_client backlog3 (Some 1)
                  \<lparr>b_status = Some ''in-progress'', b_priority = None\<rparr>)) =
     [(''P1'', ''in-progress'', maxPriorityInLane backlog3 ''in-progress'' + 1),
      (''P2'', ''backlog'', 1), (''P3'', ''backlog'', 2)]"
    by (simp add: backlog3_def summary_def handler_defs maxPriorityInLane_def lane_priorities_def)
qed

theorem lane_change_append_witness:
  "select_by_id board 1 =
     Some \<lparr>id_c = 1, name = ''P1'', description = [], status = ''backlog'', priority = 1\<rparr> \<and>
   lane_priorities board ''unknown'' = [] \<and> maxPriorityInLane board ''unknown'' = 0 \<and>
   maxPriorityInLane board ''in-progress'' = 2 \<and>
   summary (snd (put_client board (Some 1) \<lparr>b_status = Some ''in-progress'', b_priority = None\<rparr>)) =
     [(''P1'', ''in-progress'', 3), (''P2'', ''backlog'', 1), (''P3'', ''backlog'', 2),
      (''Q1'', ''in-progress'', 1), (''Q2'', ''in-progress'', 2), (''R1'', ''complete'', 1)]"
proof -
  have f: "select_by_id board 1 =
      Some \<lparr>id_c = 1, name = ''P1'', description = [], status = ''backlog'', priority = 1\<rparr>"
    by (simp add: board_def backlog3_def select_by_id_def)
  have e: "lane_priorities board ''unknown'' = []"
    by (simp add: board_def backlog3_def lane_priorities_def select_by_status_def)
  have m: "maxPriorityInLane board ''in-progress'' = 2"
    by (simp add: board_def backlog3_def maxPriorityInLane_def lane_priorities_def
        select_by_status_def)
  show ?thesis
    using f e m
      lane_change_append [of board 1
        "\<lparr>id_c = 1, name = ''P1'', description = [], status = ''backlog'', priority = 1\<rparr>"
        "\<lparr>b_status = Some ''in-progress'', b_priority = None\<rparr>" "''in-progress''"]
      lane_change_append [of board 1
        "\<lparr>id_c = 1, name = ''P1'', description = [], status = ''backlog'', priority = 1\<rparr>"
        "\<lparr>b_status = Some ''in-progress'', b_priority = None\<rparr>" "''unknown''"]
    by (simp add: board_def backlog3_def case_A_append_row_def summary_def)
qed

text \<open>
  Claim C5. On a contiguous table with unique ids, moving the client at priority 2 of lane
  \<open>A\<close> to another lane \<open>B\<close> (with or without a priority) and then back to \<open>A\<close> at
  priority 2 gives lane \<open>A\<close> the rows it had, each with its original priority.
\<close>

theorem round_trip:
  assumes "unique_ids rows" and "contiguous rows"
    and "select_by_id rows i = Some c" and "status c = A" and "priority c = 2"
    and "A \<noteq> []" and "B \<noteq> []" and "B \<noteq> A" and "b_status b = Some B"
  shows "select_by_status
           (snd (put_client (snd (put_client rows (Some i) b)) (Some i)
                   \<lparr>b_status = Some A, b_priority = Some 2\<rparr>)) A =
         select_by_status rows A"
proof -
  let ?ret = "\<lparr>b_status = Some A, b_priority = Some 2\<rparr>"
  have ok: "lane_ok rows A" using assms(2) by (simp add: contiguous_all)
  have ci: "c \<in> set rows" "id_c c = i" using select_by_id_Some [OF assms(3)] by simp_all
  have lc: "lane_change (b_status b) c = Some B"
    using assms(4,7,8,9) by (simp add: lane_change_Some)
  from update_code_leaves [OF lc, of rows i] obtain f q where
    f: "update_code rows i c b = map f rows" "\<forall>r. id_c (f r) = id_c r"
      "\<forall>r. id_c r = i \<longrightarrow> f r = r\<lparr>status := B, priority := q\<rparr>"
      "\<forall>r. id_c r \<noteq> i \<longrightarrow> status (f r) = status r"
      "\<forall>r. id_c r \<noteq> i \<longrightarrow> status r = status c \<longrightarrow>
           f r = (if priority r > priority c then r\<lparr>priority := priority r - 1\<rparr> else r)"
    by blast
  have first: "snd (put_client rows (Some i) b) = map f rows"
    using f(1) by (simp add: put_client_found [OF assms(3)])
  have c1: "select_by_id (map f rows) i = Some (f c)"
    using f(2) assms(3) by (simp add: select_by_id_map)
  have fc: "f c = c\<lparr>status := B, priority := q\<rparr>" using f(3) ci by simp
  have lc2: "lane_change (b_status ?ret) (f c) = Some A"
    using assms(6,8) fc by (simp add: lane_change_Some)
  have second: "snd (put_client (map f rows) (Some i) ?ret) =
                  map (case_A_row i (f c) A 2 \<circ> f) rows"
    using update_code_case_A [OF lc2, of 2 "map f rows" i]
    by (simp add: put_client_found [OF c1])
  have "\<forall>r\<in>set rows. (status r = A \<longrightarrow> (case_A_row i (f c) A 2 \<circ> f) r = r) \<and>
          (status r \<noteq> A \<longrightarrow> status ((case_A_row i (f c) A 2 \<circ> f) r) \<noteq> A)"
  proof
    fix r assume r: "r \<in> set rows"
    show "(status r = A \<longrightarrow> (case_A_row i (f c) A 2 \<circ> f) r = r) \<and>
          (status r \<noteq> A \<longrightarrow> status ((case_A_row i (f c) A 2 \<circ> f) r) \<noteq> A)"
    proof (cases "id_c r = i")
      case True
      then have "r = c" using client_unique [OF assms(1,3) r] by simp
      then show ?thesis
        using fc ci assms(4,5) f(2) by (simp add: case_A_row_def)
    next
      case False
      have st: "status (f r) = status r" using f(4) False by simp
      have idf: "id_c (f r) \<noteq> i" using f(2) False by simp
      show ?thesis
      proof (cases "status r = A")
        case True
        have "priority r \<noteq> 2"
          using lane_priority_inj [OF ok r ci(1) True assms(4)] False ci(2) assms(5) by auto
        moreover have "f r = (if priority r > 2 then r\<lparr>priority := priority r - 1\<rparr> else r)"
          using f(5) False True assms(4,5) by simp
        ultimately show ?thesis
          using True False fc assms(8) by (simp add: case_A_row_def)
      next
        case F: False
        then show ?thesis using st idf by (auto simp: case_A_row_def)
      qed
    qed
  qed
  then show ?thesis
    using first second select_by_status_map_frame [of rows A "case_A_row i (f c) A 2 \<circ> f"]
    by simp
qed

theorem round_trip_witness:
  "unique_ids board \<and> contiguous board \<and>
   select_by_id board 2 =
     Some \<lparr>id_c = 2, name = ''P2'', description = [], status = ''backlog'', priority = 2\<rparr> \<and>
   summary (snd (put_client board (Some 2) \<lparr>b_status = Some ''in-progress'', b_priority = Some 1\<rparr>)) =
     [(''P1'', ''backlog'', 1), (''P2'', ''in-progress'', 1), (''P3'', ''backlog'', 2),
      (''Q1'', ''in-progress'', 2), (''Q2'', ''in-progress'', 3), (''R1'', ''complete'', 1)] \<and>
   select_by_status
     (snd (put_client
             (snd (put_client board (Some 2)
                     \<lparr>b_status = Some ''in-progress'', b_priority = Some 1\<rparr>))
             (Some 2) \<lparr>b_status = Some ''backlog'', b_priority = Some 2\<rparr>)) ''backlog'' =
     backlog3"
proof -
  have u: "unique_ids board" by (simp add: board_def backlog3_def unique_ids_def)
  have c: "contiguous board"
    by (simp add: board_def backlog3_def invariant_defs select_by_status_def simp_from_to)
  have f: "select_by_id board 2 =
      Some \<lparr>id_c = 2, name = ''P2'', description = [], status = ''backlog'', priority = 2\<rparr>"
    by (simp add: board_def backlog3_def select_by_id_def)
  have s: "summary (snd (put_client board (Some 2)
                          \<lparr>b_status = Some ''in-progress'', b_priority = Some 1\<rparr>)) =
     [(''P1'', ''backlog'', 1), (''P2'', ''in-progress'', 1), (''P3'', ''backlog'', 2),
      (''Q1'', ''in-progress'', 2), (''Q2'', ''in-progress'', 3), (''R1'', ''complete'', 1)]"
    by (simp add: board_def backlog3_def summary_def handler_defs)
  have b: "select_by_status board ''backlog'' = backlog3"
    by (simp add: board_def backlog3_def select_by_status_def)
  show ?thesis
    using u c f s b
      round_trip [OF u c f, of "''backlog''" "''in-progress''"
        "\<lparr>b_status = Some ''in-progress'', b_priority = Some 1\<rparr>"]
    by simp
qed

text \<open>
  Claim C6. A request whose status is absent or the client's current one and whose
  priority is absent or the client's current one changes nothing and returns the table as
  it was; and any request applied a second time leaves the table as the first application
  left it, with the same response.
\<close>

theorem no_effective_change:
  "(select_by_id rows i = Some c \<and>
    (b_status b = None \<or> b_status b = Some (status c)) \<and>
    (b_priority b = None \<or> b_priority b = Some (priority c)) \<longrightarrow>
    put_client rows (Some i) b = (Ok200 rows, rows)) \<and>
   put_client (snd (put_client rows idp b)) idp b =
     (fst (put_client rows idp b), snd (put_client rows idp b))"
proof (intro conjI impI)
  assume a: "select_by_id rows i = Some c \<and>
    (b_status b = None \<or> b_status b = Some (status c)) \<and>
    (b_priority b = None \<or> b_priority b = Some (priority c))"
  then have "lane_change (b_status b) c = None"
    by (auto simp: lane_change_def)
  then show "put_client rows (Some i) b = (Ok200 rows, rows)"
    using a by (simp add: put_client_found update_code_case_C)
next
  show "put_client (snd (put_client rows idp b)) idp b =
     (fst (put_client rows idp b), snd (put_client rows idp b))"
  proof (cases "validateId rows idp")
    case (Invalid m l)
    then show ?thesis by (simp add: put_client_def)
  next
    case Valid
    then obtain i c where i: "idp = Some i" and c: "select_by_id rows i = Some c"
      by (auto simp: validateId_def split: option.splits)
    from select_by_id_update_code [OF c, of b]
    obtain c' where c': "select_by_id (update_code rows i c b) i = Some c'"
      "lane_change (b_status b) c' = None"
      "b_priority b = None \<or> b_priority b = Some (priority c')" by blast
    have "update_code (update_code rows i c b) i c' b = update_code rows i c b"
      using c'(2,3) by (rule update_code_case_C)
    then show ?thesis
      using i c c'(1) by (simp add: put_client_found)
  qed
qed

theorem no_effective_change_witness:
  "select_by_id board 5 =
     Some \<lparr>id_c = 5, name = ''Q2'', description = [], status = ''in-progress'', priority = 2\<rparr> \<and>
   put_client board (Some 5) \<lparr>b_status = Some ''in-progress'', b_priority = Some 2\<rparr> =
     (Ok200 board, board) \<and>
   summary (snd (put_client board (Some 5) \<lparr>b_status = Some ''backlog'', b_priority = Some 2\<rparr>)) =
     [(''P1'', ''backlog'', 1), (''P2'', ''backlog'', 3), (''P3'', ''backlog'', 4),
      (''Q1'', ''in-progress'', 1), (''Q2'', ''backlog'', 2), (''R1'', ''complete'', 1)] \<and>
   snd (put_client
         (snd (put_client board (Some 5) \<lparr>b_status = Some ''backlog'', b_priority = Some 2\<rparr>))
         (Some 5) \<lparr>b_status = Some ''backlog'', b_priority = Some 2\<rparr>) =
     snd (put_client board (Some 5) \<lparr>b_status = Some ''backlog'', b_priority = Some 2\<rparr>)"
proof -
  have f: "select_by_id board 5 =
      Some \<lparr>id_c = 5, name = ''Q2'', description = [], status = ''in-progress'', priority = 2\<rparr>"
    by (simp add: board_def backlog3_def select_by_id_def)
  have s: "summary (snd (put_client board (Some 5)
                          \<lparr>b_status = Some ''backlog'', b_priority = Some 2\<rparr>)) =
     [(''P1'', ''backlog'', 1), (''P2'', ''backlog'', 3), (''P3'', ''backlog'', 4),
      (''Q1'', ''in-progress'', 1), (''Q2'', ''backlog'', 2), (''R1'', ''complete'', 1)]"
    by (simp add: board_def backlog3_def summary_def handler_defs)
  show ?thesis
    using f s
      no_effective_change [of board 5
        "\<lparr>id_c = 5, name = ''Q2'', description = [], status = ''in-progress'', priority = 2\<rparr>"
        "\<lparr>b_status = Some ''in-progress'', b_priority = Some 2\<rparr>" "Some 5"]
      no_effective_change [of board 5
        "\<lparr>id_c = 5, name = ''Q2'', description = [], status = ''in-progress'', priority = 2\<rparr>"
        "\<lparr>b_status = Some ''backlog'', b_priority = Some 2\<rparr>" "Some 5"]
    by simp
qed

text \<open>
  Claim C7, evaluated where it fails. The priority validator accepts 0, the handler never
  calls it, and a PUT with priority 0 runs the same-lane shift: P1 is pushed to 2 and P2
  is stored at priority 0.
\<close>

theorem put_zero_priority_runs:
  "validatePriority (Some 0) = Valid \<and>
   put_client backlog3 (Some 2) \<lparr>b_status = None, b_priority = Some 0\<rparr> =
     (Ok200
        [\<lparr>id_c = 1, name = ''P1'', description = [], status = ''backlog'', priority = 2\<rparr>,
         \<lparr>id_c = 2, name = ''P2'', description = [], status = ''backlog'', priority = 0\<rparr>,
         \<lparr>id_c = 3, name = ''P3'', description = [], status = ''backlog'', priority = 3\<rparr>],
      [\<lparr>id_c = 1, name = ''P1'', description = [], status = ''backlog'', priority = 2\<rparr>,
       \<lparr>id_c = 2, name = ''P2'', description = [], status = ''backlog'', priority = 0\<rparr>,
       \<lparr>id_c = 3, name = ''P3'', description = [], status = ''backlog'', priority = 3\<rparr>])"
  by (simp add: backlog3_def handler_defs validatePriority_def)

text \<open>
  Claim C8, evaluated where it fails. GET rejects a status outside the three lanes
  (\<open>get_invalid_status\<close>), but PUT has no such check: a PUT with status \<open>unknown\<close>
  answers 200 and moves P1 into the lane \<open>unknown\<close>.
\<close>

theorem put_unknown_status_moves:
  "put_client backlog3 (Some 1) \<lparr>b_status = Some ''unknown'', b_priority = None\<rparr> =
     (Ok200
        [\<lparr>id_c = 1, name = ''P1'', description = [], status = ''unknown'', priority = 1\<rparr>,
         \<lparr>id_c = 2, name = ''P2'', description = [], status = ''backlog'', priority = 1\<rparr>,
         \<lparr>id_c = 3, name = ''P3'', description = [], status = ''backlog'', priority = 2\<rparr>],
      [\<lparr>id_c = 1, name = ''P1'', description = [], status = ''unknown'', priority = 1\<rparr>,
       \<lparr>id_c = 2, name = ''P2'', description = [], status = ''backlog'', priority = 1\<rparr>,
       \<lparr>id_c = 3, name = ''P3'', description = [], status = ''backlog'', priority = 2\<rparr>])"
  by (simp add: backlog3_def handler_defs)

text \<open>
  Claim C9. A PUT whose integer id matches no row answers 400 with the long message
  \<open>Cannot find client with that id.\<close> and leaves the table as it was.
\<close>

theorem put_unknown_id:
  "i \<notin> id_c ` set rows \<Longrightarrow>
   put_client rows (Some i) b =
     (Bad400 ''Invalid id provided.'' ''Cannot find client with that id.'', rows)"
  using select_by_id_None [of rows i] by (simp add: put_client_def validateId_def)

theorem put_unknown_id_witness:
  "999 \<notin> id_c ` set board \<and>
   put_client board (Some 999) \<lparr>b_status = Some ''complete'', b_priority = Some 1\<rparr> =
     (Bad400 ''Invalid id provided.'' ''Cannot find client with that id.'', board)"
proof -
  have n: "999 \<notin> id_c ` set board" by (simp add: board_def backlog3_def)
  show ?thesis
    using n put_unknown_id [OF n, of "\<lparr>b_status = Some ''complete'', b_priority = Some 1\<rparr>"]
    by simp
qed

text \<open>
  Claim C10. A PUT changes no id, name or description and keeps the number of rows; on a
  table with unique ids, a row whose lane is neither the moved client's old lane nor the
  lane it moves to is left exactly as it was.
\<close>

theorem put_frame:
  "map id_c (snd (put_client rows idp b)) = map id_c rows \<and>
   map name (snd (put_client rows idp b)) = map name rows \<and>
   map description (snd (put_client rows idp b)) = map description rows \<and>
   length (snd (put_client rows idp b)) = length rows \<and>
   (unique_ids rows \<and> idp = Some i \<and> select_by_id rows i = Some c \<and> k < length rows \<and>
    status (rows ! k) \<noteq> status c \<and> lane_change (b_status b) c \<noteq> Some (status (rows ! k)) \<longrightarrow>
    snd (put_client rows idp b) ! k = rows ! k)"
proof -
  from put_client_rowwise [of rows idp b] obtain f where
    f: "snd (put_client rows idp b) = map f rows"
      "\<forall>r. id_c (f r) = id_c r \<and> name (f r) = name r \<and> description (f r) = description r"
      "\<forall>i c r. idp = Some i \<longrightarrow> select_by_id rows i = Some c \<longrightarrow>
            id_c r \<noteq> i \<longrightarrow> status r \<noteq> status c \<longrightarrow>
            lane_change (b_status b) c \<noteq> Some (status r) \<longrightarrow> f r = r"
    by blast
  have "unique_ids rows \<and> idp = Some i \<and> select_by_id rows i = Some c \<and> k < length rows \<and>
    status (rows ! k) \<noteq> status c \<and> lane_change (b_status b) c \<noteq> Some (status (rows ! k)) \<longrightarrow>
    f (rows ! k) = rows ! k"
  proof (intro impI, elim conjE)
    assume a: "unique_ids rows" "idp = Some i" "select_by_id rows i = Some c" "k < length rows"
      "status (rows ! k) \<noteq> status c" "lane_change (b_status b) c \<noteq> Some (status (rows ! k))"
    have "id_c (rows ! k) \<noteq> i"
      using client_unique [OF a(1,3), of "rows ! k"] a(4,5) by auto
    then show "f (rows ! k) = rows ! k" using f(3) a by blast
  qed
  moreover have "k < length rows \<longrightarrow> snd (put_client rows idp b) ! k = f (rows ! k)"
    using f(1) by simp
  moreover have "map id_c (snd (put_client rows idp b)) = map id_c rows"
    "map name (snd (put_client rows idp b)) = map name rows"
    "map description (snd (put_client rows idp b)) = map description rows"
    "length (snd (put_client rows idp b)) = length rows"
    using f(1,2) by (simp_all add: comp_def)
  ultimately show ?thesis by metis
qed

theorem put_frame_witness:
  "unique_ids board \<and>
   select_by_id board 2 =
     Some \<lparr>id_c = 2, name = ''P2'', description = [], status = ''backlog'', priority = 2\<rparr> \<and>
   lane_change (Some ''in-progress'')
     \<lparr>id_c = 2, name = ''P2'', description = [], status = ''backlog'', priority = 2\<rparr> \<noteq>
     Some (status (board ! 5)) \<and>
   status (board ! 5) = ''complete'' \<and>
   snd (put_client board (Some 2) \<lparr>b_status = Some ''in-progress'', b_priority = Some 1\<rparr>) ! 5 =
     board ! 5 \<and>
   map name (snd (put_client board (Some 2)
                   \<lparr>b_status = Some ''in-progress'', b_priority = Some 1\<rparr>)) =
     [''P1'', ''P2'', ''P3'', ''Q1'', ''Q2'', ''R1'']"
proof -
  have u: "unique_ids board" by (simp add: board_def backlog3_def unique_ids_def)
  have f: "select_by_id board 2 =
      Some \<lparr>id_c = 2, name = ''P2'', description = [], status = ''backlog'', priority = 2\<rparr>"
    by (simp add: board_def backlog3_def select_by_id_def)
  have s: "status (board ! 5) = ''complete''" by (simp add: board_def backlog3_def)
  have n: "map name board = [''P1'', ''P2'', ''P3'', ''Q1'', ''Q2'', ''R1'']"
    by (simp add: board_def backlog3_def)
  have l: "length board = 6" by (simp add: board_def backlog3_def)
  show ?thesis
    using u f s n l
      put_frame [of board "Some 2" "\<lparr>b_status = Some ''in-progress'', b_priority = Some 1\<rparr>" 2
        "\<lparr>id_c = 2, name = ''P2'', description = [], status = ''backlog'', priority = 2\<rparr>" 5]
    by (simp add: lane_change_def)
qed

end
